theory Spec2Isabelle
  imports Main "HOL-Library.Word"
begin

unbundle bit_operations_syntax

section \<open>Block scoring (src/catapult/chain/BlockScorer.cpp)\<close>

subsection \<open>Types\<close>

text \<open>
  \<open>Hash256\<close> is a \<open>std::array<uint8_t, 32>\<close>: a list of bytes whose length is
  \<open>Hash256_Size\<close>. Theorems about hashes carry \<open>length h = Hash256_Size\<close>.
\<close>

type_synonym Hash256 = "8 word list"

definition Hash256_Size :: nat where
  "Hash256_Size = 32"

definition Two_To_54 :: "64 word" where
  "Two_To_54 = push_bit 54 1"

record GenerationHashInfo =
  Value :: "32 word"
  NumLeadingZeros :: "32 word"

text \<open>
  \<open>model::Block\<close>: only the header fields the scorer reads. Timestamps count
  milliseconds (the source comment on \<open>CalculateScore\<close>: \<open>(t(1) - t(0)) / MS_In_S\<close>).
\<close>

type_synonym Key = "8 word list"

record Block =
  Signer :: Key
  Height :: "64 word"
  Timestamp :: "64 word"
  Difficulty :: "64 word"

text \<open>
  Modelled from the spec: \<open>utils::TimeSpan\<close> (TimeSpan.h is not among the sources):
  a duration held as unsigned 64-bit milliseconds; \<open>FromDifference\<close> subtracts two
  timestamps and \<open>seconds\<close> gives the whole seconds.
\<close>

type_synonym TimeSpan = "64 word"

definition FromDifference :: "64 word \<Rightarrow> 64 word \<Rightarrow> TimeSpan" where
  "FromDifference start end = start - end"

definition seconds :: "TimeSpan \<Rightarrow> 64 word" where
  "seconds t = t div 1000"

definition TimeBetweenBlocks :: "Block \<Rightarrow> Block \<Rightarrow> TimeSpan" where
  "TimeBetweenBlocks parent block = FromDifference (Timestamp block) (Timestamp parent)"

record BlockChainConfiguration =
  BlockGenerationTargetTime :: TimeSpan
  BlockTimeSmoothingFactor :: "32 word"
  TotalChainImportance :: "64 word"

text \<open>
  \<open>BlockHitContext\<close>: the fields \<open>Signer\<close>, \<open>Height\<close>, \<open>ElapsedTime\<close>, \<open>Difficulty\<close> and
  \<open>GenerationHash\<close>, prefixed here because \<open>Block\<close> has fields of the same names.
\<close>

record BlockHitContext =
  ctx_Signer :: Key
  ctx_Height :: "64 word"
  ctx_ElapsedTime :: TimeSpan
  ctx_Difficulty :: "64 word"
  ctx_GenerationHash :: Hash256

text \<open>
  An operation that throws is an \<open>Inl\<close> result. Dividing a \<open>BlockTarget\<close> by zero does
  not return (the multiprecision division raises).
\<close>

datatype error = DivisionByZero

subsection \<open>Leading zeros and the 32-bit window\<close>

text \<open>
  Modelled from the spec: \<open>utils::Log2\<close> (IntegerMath.h is not among the sources):
  the index of the highest set bit of a byte, so that \<open>NumLeadingZeros\<close> is the
  position of the first nonzero bit of the hash. It is only called on nonzero bytes.
\<close>

fun Log2_nat :: "nat \<Rightarrow> nat" where
  "Log2_nat n = (if n < 2 then 0 else 1 + Log2_nat (n div 2))"

declare Log2_nat.simps [simp del]

definition Log2 :: "8 word \<Rightarrow> 8 word" where
  "Log2 b = of_nat (Log2_nat (unat b))"

text \<open>
  The loop \<open>for (i = 0; i < Hash256_Size; ++i)\<close>, started at index \<open>i\<close>. The result
  is a \<open>uint32_t\<close>: \<open>8u * i + 7u - Log2(byte)\<close> in unsigned 32-bit arithmetic.
\<close>

function NumLeadingZeros_from :: "Hash256 \<Rightarrow> nat \<Rightarrow> 32 word" where
  "NumLeadingZeros_from generationHash i =
     (if i < Hash256_Size then
        (if generationHash ! i \<noteq> 0
         then 8 * of_nat i + 7 - ucast (Log2 (generationHash ! i))
         else NumLeadingZeros_from generationHash (Suc i))
      else 256)"
  by pat_completeness auto
termination
  by (relation "measure (\<lambda>(h, i). Hash256_Size - i)") auto

declare NumLeadingZeros_from.simps [simp del]

definition NumLeadingZeros_hash :: "Hash256 \<Rightarrow> 32 word" where
  "NumLeadingZeros_hash generationHash = NumLeadingZeros_from generationHash 0"

text \<open>
  \<open>BSWAP(*reinterpret_cast<const uint32_t*>(hash.data() + index))\<close> on a little-endian
  host: the four bytes from \<open>index\<close> on, read as a big-endian 32-bit number.
\<close>

definition ExtractFromHashAtPosition :: "Hash256 \<Rightarrow> nat \<Rightarrow> 32 word" where
  "ExtractFromHashAtPosition hash index =
     push_bit 24 (ucast (hash ! index)) OR push_bit 16 (ucast (hash ! (index + 1)))
       OR push_bit 8 (ucast (hash ! (index + 2))) OR ucast (hash ! (index + 3))"

definition ExtractGenerationHashInfo :: "Hash256 \<Rightarrow> GenerationHashInfo" where
  "ExtractGenerationHashInfo generationHash =
     (let numLeadingZeros = NumLeadingZeros_hash generationHash in
      if 224 \<le> numLeadingZeros
      then \<lparr>Value = ExtractFromHashAtPosition generationHash (Hash256_Size - 4),
            NumLeadingZeros = 224\<rparr>
      else
        let quotient = unat (numLeadingZeros div 8);
            remainder = unat (numLeadingZeros mod 8);
            value = ExtractFromHashAtPosition generationHash quotient;
            value = push_bit remainder value;
            value = value + drop_bit (8 - remainder) (ucast (generationHash ! (quotient + 4)))
        in \<lparr>Value = value, NumLeadingZeros = numLeadingZeros\<rparr>)"

subsection \<open>CalculateHit\<close>

text \<open>
  \<open>utils::Log2TimesPowerOfTwo\<close> is declared in IntegerMath.h, which is not among the
  sources; \<open>CalculateHit\<close> takes it as the parameter \<open>log2x\<close> (value, scale, result in
  64 bits). The expression \<open>(32 + NumLeadingZeros) * Two_To_54 - logValue\<close> is
  evaluated in \<open>uint32_t\<close> (the sum) and \<open>uint64_t\<close> (product and difference), then
  widened to \<open>uint128_t\<close>; the product and the quotient are taken there and the
  result is narrowed by \<open>convert_to<uint64_t>\<close>.
\<close>

definition CalculateHit :: "(32 word \<Rightarrow> nat \<Rightarrow> 64 word) \<Rightarrow> Hash256 \<Rightarrow> 64 word" where
  "CalculateHit log2x generationHash =
     (let hashInfo = ExtractGenerationHashInfo generationHash in
      if 0 = Value hashInfo then - 1
      else if 0xFFFFFFFF = Value hashInfo then 0
      else
        let logValue = log2x (Value hashInfo) 54;
            result = (ucast ((ucast (32 + NumLeadingZeros hashInfo) :: 64 word) * Two_To_54
                        - logValue) :: 128 word);
            result = result * 10000000000000000 div 14426950408889634
        in ucast result)"

subsection \<open>CalculateScore\<close>

definition CalculateScore :: "Block \<Rightarrow> Block \<Rightarrow> 64 word" where
  "CalculateScore parentBlock currentBlock =
     (if Timestamp currentBlock \<le> Timestamp parentBlock then 0
      else
        let timeDiff = TimeBetweenBlocks parentBlock currentBlock
        in Difficulty currentBlock - seconds timeDiff)"

subsection \<open>CalculateTarget\<close>

text \<open>
  \<open>BlockTarget\<close> is declared in BlockScorer.h, which is not among the sources. It is an
  unsigned multiprecision integer; its width in bits is the parameter \<open>W\<close> of the model
  (at least 64, so that every \<open>uint64_t\<close> converts unchanged), a value is a \<open>nat\<close>
  below \<open>2 ^ W\<close>, and every product and shift is reduced modulo \<open>2 ^ W\<close>.
\<close>

definition BlockTarget :: "nat \<Rightarrow> nat \<Rightarrow> nat" where
  "BlockTarget W x = x mod 2 ^ W"

text \<open>
  The branch for a nonzero smoothing factor is computed in \<open>double\<close>:
  \<open>static_cast<uint64_t>(Two_To_54 * std::min(std::exp(factor * static_cast<int64_t>(timeDiff
  - targetTime) / targetTime), 100.0))\<close> with \<open>factor = BlockTimeSmoothingFactor / 1000.0\<close>.
  That 64-bit value is the parameter \<open>scaledSmoother\<close> (smoothing factor, time difference,
  target time). With factor 0 the smoother is \<open>1.0\<close> and the product is exactly \<open>2 ^ 54\<close>.
\<close>

definition GetMultiplier ::
  "nat \<Rightarrow> (32 word \<Rightarrow> 64 word \<Rightarrow> 64 word \<Rightarrow> 64 word) \<Rightarrow> 64 word \<Rightarrow> BlockChainConfiguration \<Rightarrow> nat" where
  "GetMultiplier W scaledSmoother timeDiff config =
     (let targetTime = seconds (BlockGenerationTargetTime config);
          scaled = (if 0 \<noteq> BlockTimeSmoothingFactor config
                    then scaledSmoother (BlockTimeSmoothingFactor config) timeDiff targetTime
                    else Two_To_54);
          target = BlockTarget W (unat scaled)
      in BlockTarget W (push_bit 10 target))"

definition CalculateTarget ::
  "nat \<Rightarrow> (32 word \<Rightarrow> 64 word \<Rightarrow> 64 word \<Rightarrow> 64 word) \<Rightarrow> TimeSpan \<Rightarrow> 64 word \<Rightarrow> 64 word
     \<Rightarrow> BlockChainConfiguration \<Rightarrow> error + nat" where
  "CalculateTarget W scaledSmoother timeSpan difficulty signerImportance config =
     (let target = BlockTarget W (unat (seconds timeSpan));
          target = BlockTarget W (target * unat signerImportance);
          target = BlockTarget W (target * GetMultiplier W scaledSmoother (seconds timeSpan) config);
          target = BlockTarget W (target * 8999999998)
      in if TotalChainImportance config = 0 then Inl DivisionByZero
         else
           let target = target div unat (TotalChainImportance config)
           in if difficulty = 0 then Inl DivisionByZero
              else Inr (target div unat difficulty))"

definition CalculateTarget_blocks ::
  "nat \<Rightarrow> (32 word \<Rightarrow> 64 word \<Rightarrow> 64 word \<Rightarrow> 64 word) \<Rightarrow> Block \<Rightarrow> Block \<Rightarrow> 64 word
     \<Rightarrow> BlockChainConfiguration \<Rightarrow> error + nat" where
  "CalculateTarget_blocks W scaledSmoother parentBlock currentBlock signerImportance config =
     (if Timestamp currentBlock \<le> Timestamp parentBlock then Inr (BlockTarget W 0)
      else
        let timeDiff = TimeBetweenBlocks parentBlock currentBlock
        in CalculateTarget W scaledSmoother timeDiff (Difficulty currentBlock) signerImportance config)"

subsection \<open>BlockHitPredicate\<close>

record BlockHitPredicate =
  m_config :: BlockChainConfiguration
  m_importanceLookup :: "Key \<Rightarrow> 64 word \<Rightarrow> 64 word"

text \<open>
  The two call operators. The model parameters come first: the width of \<open>BlockTarget\<close>,
  the floating-point smoother and the logarithm kernel.
\<close>

definition BlockHitPredicate_blocks ::
  "nat \<Rightarrow> (32 word \<Rightarrow> 64 word \<Rightarrow> 64 word \<Rightarrow> 64 word) \<Rightarrow> (32 word \<Rightarrow> nat \<Rightarrow> 64 word)
     \<Rightarrow> BlockHitPredicate \<Rightarrow> Block \<Rightarrow> Block \<Rightarrow> Hash256 \<Rightarrow> error + bool" where
  "BlockHitPredicate_blocks W scaledSmoother log2x this parentBlock block generationHash =
     (let importance = m_importanceLookup this (Signer block) (Height block);
          hit = CalculateHit log2x generationHash
      in case CalculateTarget_blocks W scaledSmoother parentBlock block importance (m_config this) of
           Inl e \<Rightarrow> Inl e
         | Inr target \<Rightarrow> Inr (unat hit < target))"

definition BlockHitPredicate_context ::
  "nat \<Rightarrow> (32 word \<Rightarrow> 64 word \<Rightarrow> 64 word \<Rightarrow> 64 word) \<Rightarrow> (32 word \<Rightarrow> nat \<Rightarrow> 64 word)
     \<Rightarrow> BlockHitPredicate \<Rightarrow> BlockHitContext \<Rightarrow> error + bool" where
  "BlockHitPredicate_context W scaledSmoother log2x this context =
     (let importance = m_importanceLookup this (ctx_Signer context) (ctx_Height context);
          hit = CalculateHit log2x (ctx_GenerationHash context)
      in case CalculateTarget W scaledSmoother (ctx_ElapsedTime context) (ctx_Difficulty context)
                importance (m_config this) of
           Inl e \<Rightarrow> Inl e
         | Inr target \<Rightarrow> Inr (unat hit < target))"

subsection \<open>A logarithm kernel to evaluate with\<close>

text \<open>
  Modelled from the spec: \<open>utils::Log2TimesPowerOfTwo\<close> (IntegerMath.h is not among the
  sources). The spec fixes its contract, an integer approximation of \<open>log2(v) * 2 ^ s\<close>
  for a nonzero 32-bit \<open>v\<close>, and leaves the algorithm open. The theorems on the
  arithmetic of \<open>CalculateHit\<close> hold for any function \<open>log2x\<close> and are evaluated at this
  instance; the theorem on the order of the hits is about this instance.
  It is the binary logarithm by repeated squaring: the integer part is the index of the
  highest set bit, and each squaring of the mantissa (63 fraction bits, in \<open>[1, 2)\<close>)
  yields one more fraction bit.
\<close>

fun Log2_fraction :: "nat \<Rightarrow> nat \<Rightarrow> nat \<Rightarrow> nat" where
  "Log2_fraction n x acc =
     (if n = 0 then acc
      else
        let y = x * x div 2 ^ 63
        in if 2 ^ 64 \<le> y then Log2_fraction (n - 1) (y div 2) (2 * acc + 1)
           else Log2_fraction (n - 1) y (2 * acc))"

declare Log2_fraction.simps [simp del]

definition Log2TimesPowerOfTwo :: "32 word \<Rightarrow> nat \<Rightarrow> 64 word" where
  "Log2TimesPowerOfTwo v n =
     (let b = Log2_nat (unat v);
          x = unat v * 2 ^ (63 - b)
      in of_nat (b * 2 ^ n + Log2_fraction n x 0))"

section \<open>Notification dispatch (src/catapult/local/NotificationObserverAdapter.cpp)\<close>

text \<open>
  Modelled from the spec: \<open>model::Notification\<close>, \<open>model::NotificationChannel\<close> and
  \<open>IsSet\<close> (NotificationType.h and Notifications.h are not among the sources). A
  notification carries a type, and the type carries a channel bitmask with at least the
  bits Validator and Observer; \<open>IsSet type channel\<close> holds when the bitmask includes the
  channel's bit. The bitmask is taken to be the top byte of the 32-bit type, with the
  bits \<open>0x01\<close> and \<open>0x02\<close>; the theorems use \<open>IsSet\<close> only through its truth value.
\<close>

record Notification =
  Type :: "32 word"
  Size :: nat

datatype NotificationChannel = Validator | Observer

fun channel_bit :: "NotificationChannel \<Rightarrow> 32 word" where
  "channel_bit Validator = 0x01"
| "channel_bit Observer = 0x02"

definition IsSet :: "32 word \<Rightarrow> NotificationChannel \<Rightarrow> bool" where
  "IsSet type channel = (drop_bit 24 type AND channel_bit channel \<noteq> 0)"

text \<open>
  An observer is called with a notification and the observer context. Through the
  context it mutates the ledger state owned by the caller, and it may throw: the result
  is the state after the call and the failure raised, if any. A failure does not undo
  what the observer wrote before it.
\<close>

type_synonym ('ctx, 's, 'e) NotificationObserver =
  "Notification \<Rightarrow> 'ctx \<Rightarrow> 's \<Rightarrow> 's \<times> 'e option"

definition ObservingNotificationSubscriber_notify ::
  "('ctx, 's, 'e) NotificationObserver \<Rightarrow> 'ctx \<Rightarrow> Notification \<Rightarrow> 's \<Rightarrow> 's \<times> 'e option" where
  "ObservingNotificationSubscriber_notify m_observer m_context notification s =
     (if \<not> IsSet (Type notification) Observer then (s, None)
      else m_observer notification m_context s)"

text \<open>
  Modelled from the spec: \<open>NotificationPublisher::publish\<close> (created by
  \<open>CreateNotificationPublisher\<close>; NotificationPublisher.cpp is not among the sources). The
  publisher decomposes the entity into an ordered sequence of notifications, here the
  parameter \<open>m_pPub\<close>, and calls the subscriber's \<open>notify\<close> on each in that order. It
  catches nothing: a failure raised by the subscriber leaves the loop.
\<close>

fun deliver ::
  "(Notification \<Rightarrow> 's \<Rightarrow> 's \<times> 'e option) \<Rightarrow> Notification list \<Rightarrow> 's \<Rightarrow> 's \<times> 'e option" where
  "deliver sub [] s = (s, None)"
| "deliver sub (n # ns) s =
     (case sub n s of
        (s', Some e) \<Rightarrow> (s', Some e)
      | (s', None) \<Rightarrow> deliver sub ns s')"

definition publish ::
  "('entity \<Rightarrow> Notification list) \<Rightarrow> 'entity \<Rightarrow> (Notification \<Rightarrow> 's \<Rightarrow> 's \<times> 'e option)
     \<Rightarrow> 's \<Rightarrow> 's \<times> 'e option" where
  "publish m_pPub entityInfo sub s = deliver sub (m_pPub entityInfo) s"

definition NotificationObserverAdapter_notify ::
  "('ctx, 's, 'e) NotificationObserver \<Rightarrow> ('entity \<Rightarrow> Notification list) \<Rightarrow> 'entity \<Rightarrow> 'ctx
     \<Rightarrow> 's \<Rightarrow> 's \<times> 'e option" where
  "NotificationObserverAdapter_notify m_pObserver m_pPub entityInfo context s =
     (let sub = ObservingNotificationSubscriber_notify m_pObserver context
      in publish m_pPub entityInfo sub s)"

text \<open>
  Two observers to state the claims with. \<open>recording\<close> never fails and appends each
  notification it is given to its state. \<open>logged obs\<close> behaves as \<open>obs\<close> and keeps,
  beside the state of \<open>obs\<close>, the list of the notifications delivered so far.
\<close>

definition recording :: "('ctx, Notification list, 'e) NotificationObserver" where
  "recording notification context log = (log @ [notification], None)"

definition logged ::
  "('ctx, 's, 'e) NotificationObserver \<Rightarrow> ('ctx, Notification list \<times> 's, 'e) NotificationObserver" where
  "logged obs notification context ls =
     (case obs notification context (snd ls) of
        (s', r) \<Rightarrow> ((fst ls @ [notification], s'), r))"

section \<open>Inputs to evaluate the model at\<close>

text \<open>Hashes: all zero, all ones, and three with a window next to \<open>0x80000000\<close>.\<close>

definition zero_hash :: Hash256 where
  "zero_hash = replicate 32 0"

definition ones_hash :: Hash256 where
  "ones_hash = replicate 32 0xFF"

definition hash_80 :: Hash256 where
  "hash_80 = 0x80 # replicate 31 0"

definition hash_01 :: Hash256 where
  "hash_01 = [0x01, 0, 0, 0, 0x02] @ replicate 27 0"

definition hash_80_01 :: Hash256 where
  "hash_80_01 = [0x80, 0, 0, 0x01] @ replicate 28 0"

text \<open>
  A configuration with smoothing switched off, the same with a total chain importance
  of zero, an importance lookup that finds no importance, an instance of the smoother
  parameter (not consulted when the smoothing factor is 0), and two blocks 15 seconds
  apart.
\<close>

definition plain_config :: BlockChainConfiguration where
  "plain_config = \<lparr>BlockGenerationTargetTime = 15000, BlockTimeSmoothingFactor = 0,
                    TotalChainImportance = 8999999998\<rparr>"

definition empty_chain_config :: BlockChainConfiguration where
  "empty_chain_config = \<lparr>BlockGenerationTargetTime = 15000, BlockTimeSmoothingFactor = 0,
                          TotalChainImportance = 0\<rparr>"

definition zero_importance :: "Key \<Rightarrow> 64 word \<Rightarrow> 64 word" where
  "zero_importance signer height = 0"

definition flat_smoother :: "32 word \<Rightarrow> 64 word \<Rightarrow> 64 word \<Rightarrow> 64 word" where
  "flat_smoother factor timeDiff targetTime = Two_To_54"

definition genesis :: Block where
  "genesis = \<lparr>Signer = [], Height = 1, Timestamp = 0, Difficulty = 100000000000000\<rparr>"

definition second_block :: Block where
  "second_block = \<lparr>Signer = [], Height = 2, Timestamp = 15000, Difficulty = 100000000000000\<rparr>"


text \<open>
  The entity of the spec's example: a validator-only notification, an observer-only one
  and one on both channels; and an observer that counts what it is given and fails on
  the notifications of one type.
\<close>

definition N1 :: Notification where
  "N1 = \<lparr>Type = 0x01000001, Size = 8\<rparr>"

definition N2 :: Notification where
  "N2 = \<lparr>Type = 0x02000002, Size = 8\<rparr>"

definition N3 :: Notification where
  "N3 = \<lparr>Type = 0x03000003, Size = 8\<rparr>"

definition three_notifications :: "unit \<Rightarrow> Notification list" where
  "three_notifications entity = [N1, N2, N3]"

definition fails_on :: "32 word \<Rightarrow> (unit, nat, string) NotificationObserver" where
  "fails_on type notification context count =
     (if Type notification = type then (count, Some ''failure'') else (Suc count, None))"

section \<open>Properties of the block scorer\<close>

subsection \<open>Reading words as numbers\<close>

lemma unat_ucast_up:
  fixes w :: "'a::len word"
  assumes "LENGTH('a) \<le> LENGTH('b::len)"
  shows "unat (ucast w :: 'b word) = unat w"
proof -
  have "unat w < 2 ^ LENGTH('a)" by simp
  also have "(2::nat) ^ LENGTH('a) \<le> 2 ^ LENGTH('b)" using assms by simp
  finally show ?thesis by (simp add: unsigned_ucast_eq take_bit_nat_eq_self)
qed


lemma unat_ucast_small:
  fixes w :: "'a::len word"
  assumes "unat w < 2 ^ LENGTH('b::len)"
  shows "unat (ucast w :: 'b word) = unat w"
  using assms by (simp add: unsigned_ucast_eq take_bit_nat_eq_self)




subsection \<open>CalculateScore\<close>

lemma seconds_between:
  assumes "Timestamp p < Timestamp c"
  shows "unat (seconds (TimeBetweenBlocks p c)) = (unat (Timestamp c) - unat (Timestamp p)) div 1000"
proof -
  have "Timestamp p \<le> Timestamp c" using assms by simp
  then have "unat (Timestamp c - Timestamp p) = unat (Timestamp c) - unat (Timestamp p)"
    by (rule unat_sub)
  then show ?thesis
    by (simp add: seconds_def TimeBetweenBlocks_def FromDifference_def unat_div)
qed


text \<open>
  C6. \<open>CalculateScore parent current\<close> is 0 when the timestamp of \<open>current\<close> is not
  after that of \<open>parent\<close>; otherwise it is the difficulty of \<open>current\<close> minus the whole
  seconds between the two timestamps (the millisecond difference, which does not wrap on
  this branch, divided by 1000), the subtraction being that of \<open>uint64_t\<close>.
\<close>

theorem CalculateScore_spec:
  "CalculateScore p c =
     (if Timestamp c \<le> Timestamp p then 0
      else Difficulty c - of_nat ((unat (Timestamp c) - unat (Timestamp p)) div 1000))"
proof (cases "Timestamp c \<le> Timestamp p")
  case True
  then show ?thesis by (simp add: CalculateScore_def)
next
  case False
  then have lt: "Timestamp p < Timestamp c" by simp
  have "seconds (TimeBetweenBlocks p c) = of_nat (unat (seconds (TimeBetweenBlocks p c)))"
    by simp
  also have "\<dots> = of_nat ((unat (Timestamp c) - unat (Timestamp p)) div 1000)"
    by (simp only: seconds_between [OF lt])
  finally show ?thesis using False by (simp add: CalculateScore_def Let_def)
qed


theorem CalculateScore_spec_witness:
  "CalculateScore \<lparr>Signer = [], Height = 1, Timestamp = 1000, Difficulty = 50\<rparr>
                  \<lparr>Signer = [], Height = 2, Timestamp = 16500, Difficulty = 90\<rparr> = 75
   \<and> CalculateScore \<lparr>Signer = [], Height = 1, Timestamp = 1000, Difficulty = 50\<rparr>
                    \<lparr>Signer = [], Height = 2, Timestamp = 1000, Difficulty = 90\<rparr> = 0"
  using CalculateScore_spec [of "\<lparr>Signer = [], Height = 1, Timestamp = 1000, Difficulty = 50\<rparr>"
          "\<lparr>Signer = [], Height = 2, Timestamp = 16500, Difficulty = 90\<rparr>"]
    CalculateScore_spec [of "\<lparr>Signer = [], Height = 1, Timestamp = 1000, Difficulty = 50\<rparr>"
          "\<lparr>Signer = [], Height = 2, Timestamp = 1000, Difficulty = 90\<rparr>"]
  by simp


lemma wrap_above: "d < s \<Longrightarrow> s < N \<Longrightarrow> (d::nat) < N + d - s"
  by arith


text \<open>
  C10. When \<open>current\<close> is after \<open>parent\<close> and the whole seconds between them exceed the
  difficulty of \<open>current\<close>, the score is neither 0 nor clamped: it is the difference
  modulo \<open>2 ^ 64\<close>, that is \<open>2 ^ 64 + difficulty - seconds\<close>, a value above the difficulty.
\<close>

theorem CalculateScore_wraps:
  assumes lt: "Timestamp p < Timestamp c"
    and big: "unat (Difficulty c) < (unat (Timestamp c) - unat (Timestamp p)) div 1000"
  shows "unat (CalculateScore p c) =
           2 ^ 64 + unat (Difficulty c) - (unat (Timestamp c) - unat (Timestamp p)) div 1000
         \<and> CalculateScore p c \<noteq> 0
         \<and> Difficulty c < CalculateScore p c"
proof -
  let ?s = "seconds (TimeBetweenBlocks p c)"
  have s: "unat ?s = (unat (Timestamp c) - unat (Timestamp p)) div 1000"
    by (rule seconds_between [OF lt])
  have "\<not> Timestamp c \<le> Timestamp p" using lt by simp
  then have score: "CalculateScore p c = Difficulty c - ?s"
    by (simp add: CalculateScore_def Let_def)
  have dlt: "Difficulty c < ?s"
    using big s by (simp add: word_less_nat_alt)
  have sb: "unat ?s < 2 ^ 64" using unsigned_less [of ?s, where ?'a = nat] by simp
  have u: "unat (Difficulty c - ?s) = 2 ^ 64 + unat (Difficulty c) - unat ?s"
    using dlt by (simp add: unat_sub_if_size word_size word_less_nat_alt)
  have above: "unat (Difficulty c) < unat (CalculateScore p c)"
    unfolding score u using big sb unfolding s by (rule wrap_above)
  then have nz: "CalculateScore p c \<noteq> 0" by (auto simp: unat_eq_zero)
  from above have "Difficulty c < CalculateScore p c" by (simp add: word_less_nat_alt)
  with nz u s score show ?thesis by simp
qed


theorem CalculateScore_wraps_witness:
  "Timestamp \<lparr>Signer = [], Height = 1, Timestamp = 0, Difficulty = 7\<rparr>
     < Timestamp \<lparr>Signer = [], Height = 2, Timestamp = 5000, Difficulty = 3\<rparr>
   \<and> unat (CalculateScore \<lparr>Signer = [], Height = 1, Timestamp = 0, Difficulty = 7\<rparr>
                          \<lparr>Signer = [], Height = 2, Timestamp = 5000, Difficulty = 3\<rparr>)
       = 18446744073709551614"
  using CalculateScore_wraps [of "\<lparr>Signer = [], Height = 1, Timestamp = 0, Difficulty = 7\<rparr>"
          "\<lparr>Signer = [], Height = 2, Timestamp = 5000, Difficulty = 3\<rparr>"]
  by simp

subsection \<open>The window of a hash\<close>

lemma NumLeadingZeros_from_zero:
  "(\<And>j. i \<le> j \<Longrightarrow> j < Hash256_Size \<Longrightarrow> h ! j = 0) \<Longrightarrow> NumLeadingZeros_from h i = 256"
proof (induction h i rule: NumLeadingZeros_from.induct)
  case (1 h i)
  show ?case
  proof (cases "i < Hash256_Size")
    case True
    then have z: "h ! i = 0" using "1.prems" by simp
    have "NumLeadingZeros_from h (Suc i) = 256"
      using True z "1.prems" by (intro "1.IH") auto
    then show ?thesis using True z by (subst NumLeadingZeros_from.simps) simp
  next
    case False
    then show ?thesis by (subst NumLeadingZeros_from.simps) simp
  qed
qed


lemma info_zero_hash:
  assumes "\<And>j. j < Hash256_Size \<Longrightarrow> h ! j = 0"
  shows "Value (ExtractGenerationHashInfo h) = 0"
proof -
  have "NumLeadingZeros_hash h = 256"
    unfolding NumLeadingZeros_hash_def using assms by (intro NumLeadingZeros_from_zero) simp
  moreover have "ExtractFromHashAtPosition h (Hash256_Size - 4) = 0"
    using assms by (simp add: ExtractFromHashAtPosition_def Hash256_Size_def)
  ultimately show ?thesis by (simp add: ExtractGenerationHashInfo_def)
qed


lemma info_nlz_le: "unat (NumLeadingZeros (ExtractGenerationHashInfo h)) \<le> 224"
proof (cases "224 \<le> NumLeadingZeros_hash h")
  case True
  then show ?thesis by (simp add: ExtractGenerationHashInfo_def)
next
  case False
  then have "NumLeadingZeros_hash h < 224" by simp
  then have "unat (NumLeadingZeros_hash h) < 224" by (simp add: word_less_nat_alt)
  with False show ?thesis by (simp add: ExtractGenerationHashInfo_def Let_def)
qed


text \<open>
  The byte logarithm, and the first nonzero byte: \<open>NumLeadingZeros\<close> counts the zero bits
  before the first set bit, and the window starts at that bit.
\<close>

lemma Log2_nat_bounds: "0 < n \<Longrightarrow> 2 ^ Log2_nat n \<le> n \<and> n < 2 ^ (Log2_nat n + 1)"
proof (induction n rule: Log2_nat.induct)
  case (1 n)
  show ?case
  proof (cases "n < 2")
    case True
    with "1.prems" have "n = 1" by simp
    then show ?thesis by (simp add: Log2_nat.simps)
  next
    case False
    then have pos: "0 < n div 2" by simp
    from "1.IH" [OF False pos]
    have lo: "2 ^ Log2_nat (n div 2) \<le> n div 2" and hi: "n div 2 < 2 ^ (Log2_nat (n div 2) + 1)"
      by simp_all
    have eq: "Log2_nat n = 1 + Log2_nat (n div 2)"
      using False by (subst Log2_nat.simps) simp
    have "2 * 2 ^ Log2_nat (n div 2) \<le> 2 * (n div 2)" using lo by simp
    also have "\<dots> \<le> n" by simp
    finally have a: "2 ^ Log2_nat n \<le> n" unfolding eq by simp
    have "n div 2 + 1 \<le> 2 ^ (Log2_nat (n div 2) + 1)" using hi by simp
    then have "2 * (n div 2 + 1) \<le> 2 * 2 ^ (Log2_nat (n div 2) + 1)" by simp
    moreover have "n < 2 * (n div 2 + 1)" by simp
    ultimately have b: "n < 2 ^ (Log2_nat n + 1)" unfolding eq by simp
    from a b show ?thesis ..
  qed
qed


lemma Log2_byte:
  fixes b :: "8 word"
  assumes "b \<noteq> 0"
  shows "unat (Log2 b) \<le> 7" and "bit b (unat (Log2 b))"
proof -
  let ?L = "Log2_nat (unat b)"
  have pos: "0 < unat b" using assms by (simp add: unat_gt_0)
  note B = Log2_nat_bounds [OF pos]
  have lt: "unat b < 2 ^ 8" using unsigned_less [of b, where ?'a = nat] by simp
  have p: "(2::nat) ^ ?L < 2 ^ 8" using B lt by linarith
  have "(1::nat) < 2" by simp
  from power_less_imp_less_exp [OF this p] have L: "?L < 8" .
  then have u: "unat (Log2 b) = ?L" by (simp add: Log2_def unat_of_nat)
  show "unat (Log2 b) \<le> 7" using L u by simp
  have "unat b div 2 ^ ?L = 1"
  proof -
    have "unat b div 2 ^ ?L < 2" using B by (simp add: less_mult_imp_div_less)
    moreover have "0 < unat b div 2 ^ ?L" using B by (simp add: div_greater_zero_iff)
    ultimately show ?thesis by simp
  qed
  then have "bit (unat b) ?L" by (simp add: bit_iff_odd)
  then show "bit b (unat (Log2 b))" unfolding u by (simp add: bit_unsigned_iff)
qed


lemma NumLeadingZeros_from_first:
  assumes "k < Hash256_Size" and "h ! k \<noteq> 0" and "\<And>j. i \<le> j \<Longrightarrow> j < k \<Longrightarrow> h ! j = 0" and "i \<le> k"
  shows "NumLeadingZeros_from h i = 8 * of_nat k + 7 - ucast (Log2 (h ! k))"
  using assms
proof (induction "k - i" arbitrary: i)
  case 0
  then have "i = k" by simp
  then show ?case using "0.prems"(1,2) by (subst NumLeadingZeros_from.simps) simp
next
  case (Suc d)
  then have lt: "i < k" by simp
  then have z: "h ! i = 0" using Suc.prems(3) by simp
  have "NumLeadingZeros_from h (Suc i) = 8 * of_nat k + 7 - ucast (Log2 (h ! k))"
    using Suc.hyps(2) Suc.prems lt by (intro Suc.hyps(1)) auto
  then show ?case using z lt Suc.prems(1) by (subst NumLeadingZeros_from.simps) simp
qed


lemma unat_nlz_first:
  fixes b :: "8 word"
  assumes k: "k < 32" and b: "b \<noteq> 0"
  shows "unat (8 * of_nat k + 7 - ucast (Log2 b) :: 32 word) = 8 * k + 7 - unat (Log2 b)"
proof -
  have L: "unat (Log2 b) \<le> 7" using b by (rule Log2_byte)
  have k': "unat (of_nat k :: 32 word) = k" using k by (simp add: unat_of_nat)
  have a: "unat (8 * of_nat k + 7 :: 32 word) = 8 * k + 7"
    using k k' by (simp add: unat_word_ariths)
  have l: "unat (ucast (Log2 b) :: 32 word) = unat (Log2 b)"
    by (simp add: unat_ucast_up)
  have "ucast (Log2 b) \<le> (8 * of_nat k + 7 :: 32 word)"
    using L a l by (simp add: word_le_nat_alt)
  then show ?thesis using a l by (simp add: unat_sub)
qed


lemma div_mod_nlz:
  fixes k L :: nat
  assumes "L \<le> 7"
  shows "(8 * k + 7 - L) div 8 = k" "(8 * k + 7 - L) mod 8 = 7 - L"
proof -
  have e: "8 * k + 7 - L = (7 - L) + k * 8" using assms by simp
  have "((7 - L) + k * 8) div 8 = k" by simp
  then show "(8 * k + 7 - L) div 8 = k" by (simp only: e)
  have "((7 - L) + k * 8) mod 8 = 7 - L" by simp
  then show "(8 * k + 7 - L) mod 8 = 7 - L" by (simp only: e)
qed


lemma byte_shift_zero:
  fixes b :: "8 word"
  assumes "n \<le> 24"
  shows "push_bit n (ucast b :: 32 word) = 0 \<longleftrightarrow> b = 0"
proof
  assume z: "push_bit n (ucast b :: 32 word) = 0"
  show "b = 0"
  proof (rule bit_word_eqI)
    fix m assume m: "m < LENGTH(8)"
    have "\<not> bit (push_bit n (ucast b :: 32 word)) (n + m)" unfolding z by simp
    then show "bit b m \<longleftrightarrow> bit (0 :: 8 word) m"
      using m assms by (simp add: bit_push_bit_iff bit_ucast_iff)
  qed
qed simp


lemma ExtractFromHashAtPosition_zero:
  "ExtractFromHashAtPosition h i = 0 \<longleftrightarrow>
     h ! i = 0 \<and> h ! (i + 1) = 0 \<and> h ! (i + 2) = 0 \<and> h ! (i + 3) = 0"
  using byte_shift_zero [of 24 "h ! i"] byte_shift_zero [of 16 "h ! (i + 1)"]
    byte_shift_zero [of 8 "h ! (i + 2)"] byte_shift_zero [of 0 "h ! (i + 3)"]
  by (simp add: ExtractFromHashAtPosition_def or_eq_0_iff)


lemma window_nonzero:
  assumes k: "k < Hash256_Size" and nz: "h ! k \<noteq> 0" and first: "\<And>j. j < k \<Longrightarrow> h ! j = 0"
  shows "Value (ExtractGenerationHashInfo h) \<noteq> 0"
    and "k < 28 \<Longrightarrow> bit (Value (ExtractGenerationHashInfo h)) 31"
proof -
  let ?L = "unat (Log2 (h ! k))"
  have k32: "k < 32" using k by (simp add: Hash256_Size_def)
  have L: "?L \<le> 7" and bitL: "bit (h ! k) ?L" using nz by (rule Log2_byte)+
  have nlz: "NumLeadingZeros_hash h = 8 * of_nat k + 7 - ucast (Log2 (h ! k))"
    unfolding NumLeadingZeros_hash_def using k nz first by (intro NumLeadingZeros_from_first) simp_all
  have u: "unat (NumLeadingZeros_hash h) = 8 * k + 7 - ?L"
    unfolding nlz using k32 nz by (rule unat_nlz_first)
  have top: "bit (Value (ExtractGenerationHashInfo h)) 31" if small: "k < 28"
  proof -
    have "unat (NumLeadingZeros_hash h) < 224" using u small L by simp
    then have lt: "\<not> 224 \<le> NumLeadingZeros_hash h" by (simp add: word_le_nat_alt)
    have q: "unat (NumLeadingZeros_hash h div 8) = k"
      using div_mod_nlz(1) [OF L, of k] by (simp add: unat_div u)
    have r: "unat (NumLeadingZeros_hash h mod 8) = 7 - ?L"
      using div_mod_nlz(2) [OF L, of k] by (simp add: unat_mod u)
    let ?E = "ExtractFromHashAtPosition h k"
    let ?x = "drop_bit (8 - (7 - ?L)) (ucast (h ! (k + 4)) :: 32 word)"
    have V: "Value (ExtractGenerationHashInfo h) = push_bit (7 - ?L) ?E + ?x"
      using lt by (simp add: ExtractGenerationHashInfo_def Let_def q r)
    have disj: "\<not> bit (push_bit (7 - ?L) ?E) n \<or> \<not> bit ?x n" for n
      using L by (auto simp: bit_push_bit_iff bit_drop_bit_eq bit_word_ucast_iff
          dest!: bit_imp_le_length)
    have "bit (push_bit 24 (ucast (h ! k) :: 32 word)) (24 + ?L)"
      using L bitL by (simp add: bit_push_bit_iff bit_word_ucast_iff)
    then have "bit ?E (24 + ?L)"
      by (simp add: ExtractFromHashAtPosition_def bit_or_iff)
    moreover have "31 - (7 - ?L) = 24 + ?L" using L by simp
    ultimately have "bit (push_bit (7 - ?L) ?E) 31"
      using L by (simp add: bit_push_bit_iff)
    then show ?thesis unfolding V disjunctive_add [of "push_bit (7 - ?L) ?E" ?x, OF disj]
      by (simp add: bit_or_iff)
  qed
  show "k < 28 \<Longrightarrow> bit (Value (ExtractGenerationHashInfo h)) 31" by (rule top)
  show "Value (ExtractGenerationHashInfo h) \<noteq> 0"
  proof (cases "k < 28")
    case True
    then have "bit (Value (ExtractGenerationHashInfo h)) 31" by (rule top)
    then show ?thesis by auto
  next
    case False
    then have "224 \<le> unat (NumLeadingZeros_hash h)" using u L by simp
    then have ge: "224 \<le> NumLeadingZeros_hash h" by (simp add: word_le_nat_alt)
    have V: "Value (ExtractGenerationHashInfo h) = ExtractFromHashAtPosition h 28"
      using ge by (simp add: ExtractGenerationHashInfo_def Hash256_Size_def)
    from False k32 have "k = 28 \<or> k = 28 + 1 \<or> k = 28 + 2 \<or> k = 28 + 3" by arith
    then show ?thesis unfolding V ExtractFromHashAtPosition_zero using nz by auto
  qed
qed


lemma first_nonzero:
  assumes "\<not> (\<forall>j < N. h ! j = (0 :: 8 word))"
  shows "\<exists>k < N. h ! k \<noteq> 0 \<and> (\<forall>j < k. h ! j = 0)"
proof -
  let ?P = "\<lambda>k. k < N \<and> h ! k \<noteq> 0"
  from assms have ex: "\<exists>k. ?P k" by auto
  then have P: "?P (LEAST k. ?P k)" by (rule LeastI_ex)
  have "h ! j = 0" if "j < (LEAST k. ?P k)" for j
  proof -
    from that have "\<not> ?P j" by (rule not_less_Least)
    moreover have "j < N" using that P by simp
    ultimately show ?thesis by simp
  qed
  with P show ?thesis by blast
qed


lemma window_zero_iff:
  "Value (ExtractGenerationHashInfo h) = 0 \<longleftrightarrow> (\<forall>j < Hash256_Size. h ! j = 0)"
proof
  assume "\<forall>j < Hash256_Size. h ! j = 0"
  then show "Value (ExtractGenerationHashInfo h) = 0" by (intro info_zero_hash) simp
next
  assume z: "Value (ExtractGenerationHashInfo h) = 0"
  show "\<forall>j < Hash256_Size. h ! j = 0"
  proof (rule ccontr)
    assume "\<not> (\<forall>j < Hash256_Size. h ! j = 0)"
    then obtain k where "k < Hash256_Size" "h ! k \<noteq> 0" "\<And>j. j < k \<Longrightarrow> h ! j = 0"
      using first_nonzero [of Hash256_Size h] by blast
    then have "Value (ExtractGenerationHashInfo h) \<noteq> 0" by (rule window_nonzero(1))
    with z show False by simp
  qed
qed


text \<open>The windows and leading-zero counts of the example hashes.\<close>

lemma info_hash_80:
  "ExtractGenerationHashInfo hash_80 = \<lparr>Value = 0x80000000, NumLeadingZeros = 0\<rparr>"
  by code_simp


lemma info_hash_01:
  "ExtractGenerationHashInfo hash_01 = \<lparr>Value = 0x80000001, NumLeadingZeros = 7\<rparr>"
  by code_simp


lemma info_hash_80_01:
  "ExtractGenerationHashInfo hash_80_01 = \<lparr>Value = 0x80000001, NumLeadingZeros = 0\<rparr>"
  by code_simp


lemma info_ones_hash:
  "ExtractGenerationHashInfo ones_hash = \<lparr>Value = 0xFFFFFFFF, NumLeadingZeros = 0\<rparr>"
  by code_simp

lemma length_hash_80: "length hash_80 = Hash256_Size"
  by (simp add: hash_80_def Hash256_Size_def)

lemma length_hash_01: "length hash_01 = Hash256_Size"
  by (simp add: hash_01_def Hash256_Size_def)

lemma first_byte_hash_80: "hash_80 ! 0 \<noteq> 0"
  by (simp add: hash_80_def)

lemma first_byte_hash_01: "hash_01 ! 0 \<noteq> 0"
  by (simp add: hash_01_def)


lemma log_80000000: "Log2TimesPowerOfTwo 0x80000000 54 = 558446353793941504"
  by (simp add: Log2_nat.simps Log2_fraction.simps Log2TimesPowerOfTwo_def Let_def)


lemma log_80000001: "Log2TimesPowerOfTwo 0x80000001 54 = 558446353806043707"
  by (simp add: Log2_nat.simps Log2_fraction.simps Log2TimesPowerOfTwo_def Let_def)


subsection \<open>CalculateHit\<close>

lemma scaled_nlz:
  fixes n :: "32 word"
  assumes "unat n \<le> 224"
  shows "unat ((ucast (32 + n) :: 64 word) * Two_To_54) = (32 + unat n) * 2 ^ 54"
proof -
  have a: "unat (32 + n) = 32 + unat n"
    using assms by (subst unat_add_lem [THEN iffD1]) simp_all
  have b: "unat (ucast (32 + n) :: 64 word) = 32 + unat n"
    using a by (simp add: unat_ucast_up)
  have t: "unat Two_To_54 = 2 ^ 54" by (simp add: Two_To_54_def)
  have "(32 + unat n) * (2::nat) ^ 54 \<le> 256 * 2 ^ 54"
    using assms by (intro mult_right_mono) simp_all
  then have "unat (ucast (32 + n) :: 64 word) * unat Two_To_54 < 2 ^ LENGTH(64)"
    unfolding b t by simp
  then have "unat ((ucast (32 + n) :: 64 word) * Two_To_54)
               = unat (ucast (32 + n) :: 64 word) * unat Two_To_54"
    by (simp only: unat_mult_lem)
  then show ?thesis by (simp only: b t)
qed


lemma ratio_narrow:
  fixes d :: "64 word"
  shows "unat (ucast ((ucast d :: 128 word) * 10000000000000000 div 14426950408889634) :: 64 word)
           = unat d * 10000000000000000 div 14426950408889634"
proof -
  have d: "unat d < 2 ^ 64" using unsigned_less [of d, where ?'a = nat] by simp
  have u: "unat (ucast d :: 128 word) = unat d" by (simp add: unat_ucast_up)
  have "unat d * 10000000000000000 < 2 ^ 64 * 2 ^ 64"
    using d by (intro mult_strict_mono) simp_all
  then have fit: "unat (ucast d :: 128 word) * unat (10000000000000000 :: 128 word) < 2 ^ LENGTH(128)"
    unfolding u by simp
  have m: "unat ((ucast d :: 128 word) * 10000000000000000) = unat d * 10000000000000000"
    using fit [unfolded unat_mult_lem] u by simp
  have q: "unat ((ucast d :: 128 word) * 10000000000000000 div 14426950408889634)
             = unat d * 10000000000000000 div 14426950408889634"
    by (simp add: unat_div m)
  have "unat d * 10000000000000000 div 14426950408889634 \<le> unat d * 14426950408889634 div 14426950408889634"
    by (intro div_le_mono mult_left_mono) simp_all
  then have "unat d * 10000000000000000 div 14426950408889634 < 2 ^ 64"
    using d by simp
  then have "unat ((ucast d :: 128 word) * 10000000000000000 div 14426950408889634) < 2 ^ LENGTH(64)"
    unfolding q by simp
  then show ?thesis unfolding q [symmetric] by (rule unat_ucast_small)
qed


lemma CalculateHit_general:
  assumes "Value (ExtractGenerationHashInfo h) \<noteq> 0"
    and "Value (ExtractGenerationHashInfo h) \<noteq> 0xFFFFFFFF"
  shows "unat (CalculateHit log2x h) =
           unat ((ucast (32 + NumLeadingZeros (ExtractGenerationHashInfo h)) :: 64 word) * Two_To_54
                   - log2x (Value (ExtractGenerationHashInfo h)) 54)
             * 10000000000000000 div 14426950408889634"
proof -
  have a: "0 \<noteq> Value (ExtractGenerationHashInfo h)" using assms(1) by simp
  have b: "0xFFFFFFFF \<noteq> Value (ExtractGenerationHashInfo h)" using assms(2) by simp
  show ?thesis
    unfolding CalculateHit_def Let_def if_not_P [OF a] if_not_P [OF b]
    by (rule ratio_narrow)
qed


lemma CalculateHit_exact:
  assumes "Value (ExtractGenerationHashInfo h) \<noteq> 0"
    and "Value (ExtractGenerationHashInfo h) \<noteq> 0xFFFFFFFF"
    and "unat (log2x (Value (ExtractGenerationHashInfo h)) 54)
           \<le> (32 + unat (NumLeadingZeros (ExtractGenerationHashInfo h))) * 2 ^ 54"
  shows "unat (CalculateHit log2x h) =
           ((32 + unat (NumLeadingZeros (ExtractGenerationHashInfo h))) * 2 ^ 54
              - unat (log2x (Value (ExtractGenerationHashInfo h)) 54))
             * 10000000000000000 div 14426950408889634"
proof -
  let ?n = "NumLeadingZeros (ExtractGenerationHashInfo h)"
  let ?l = "log2x (Value (ExtractGenerationHashInfo h)) 54"
  let ?A = "(ucast (32 + ?n) :: 64 word) * Two_To_54"
  have A: "unat ?A = (32 + unat ?n) * 2 ^ 54"
    by (rule scaled_nlz [OF info_nlz_le])
  have "unat ?l \<le> unat ?A" using assms(3) A by simp
  then have "?l \<le> ?A" by (simp add: word_le_nat_alt)
  then have "unat (?A - ?l) = unat ?A - unat ?l" by (rule unat_sub)
  then show ?thesis
    unfolding CalculateHit_general [OF assms(1,2)] A by simp
qed




text \<open>
  C2. The extracted window of a hash is 0 exactly when the hash is all zero, and then
  \<open>CalculateHit\<close> is the largest 64-bit value, \<open>2 ^ 64 - 1\<close>. Whenever the extracted window
  is \<open>0xFFFFFFFF\<close> the hit is 0.
\<close>

theorem CalculateHit_edges:
  assumes "length h = Hash256_Size"
  shows "(Value (ExtractGenerationHashInfo h) = 0 \<longleftrightarrow> (\<forall>j < Hash256_Size. h ! j = 0))
       \<and> ((\<forall>j < Hash256_Size. h ! j = 0) \<longrightarrow> unat (CalculateHit log2x h) = 2 ^ 64 - 1)
       \<and> (Value (ExtractGenerationHashInfo h) = 0 \<longrightarrow> unat (CalculateHit log2x h) = 2 ^ 64 - 1)
       \<and> (Value (ExtractGenerationHashInfo h) = 0xFFFFFFFF \<longrightarrow> CalculateHit log2x h = 0)"
proof -
  have max: "unat (CalculateHit log2x h) = 2 ^ 64 - 1" if "Value (ExtractGenerationHashInfo h) = 0"
    using that by (simp add: CalculateHit_def unsigned_minus_1_eq_mask mask_eq_exp_minus_1)
  have zero: "CalculateHit log2x h = 0" if "Value (ExtractGenerationHashInfo h) = 0xFFFFFFFF"
    using that by (simp add: CalculateHit_def)
  from max zero window_zero_iff [of h] show ?thesis by blast
qed

theorem CalculateHit_edges_witness:
  "length zero_hash = Hash256_Size \<and> set zero_hash = {0}
   \<and> unat (CalculateHit Log2TimesPowerOfTwo zero_hash) = 18446744073709551615
   \<and> Value (ExtractGenerationHashInfo ones_hash) = 0xFFFFFFFF
   \<and> CalculateHit Log2TimesPowerOfTwo ones_hash = 0"
  using CalculateHit_edges [of zero_hash Log2TimesPowerOfTwo]
    CalculateHit_edges [of ones_hash Log2TimesPowerOfTwo]
  by (simp add: zero_hash_def ones_hash_def Hash256_Size_def info_ones_hash [unfolded ones_hash_def])




subsection \<open>CalculateHit against the window\<close>

lemma hit_hash_80: "CalculateHit Log2TimesPowerOfTwo hash_80 = 12486629536330718"
  by (simp add: CalculateHit_def info_hash_80 log_80000000 Two_To_54_def)


lemma hit_hash_01: "CalculateHit Log2TimesPowerOfTwo hash_01 = 99893036282257139"
  by (simp add: CalculateHit_def info_hash_01 log_80000001 Two_To_54_def)


lemma ratio_strict:
  fixes x y :: nat
  assumes "y + 2 \<le> x"
  shows "y * 10000000000000000 div 14426950408889634 < x * 10000000000000000 div 14426950408889634"
proof -
  have "y * 10000000000000000 + 14426950408889634 \<le> (y + 2) * 10000000000000000"
    by (simp add: algebra_simps)
  also have "\<dots> \<le> x * 10000000000000000" using assms by (rule mult_le_mono1)
  finally have "(y * 10000000000000000 + 14426950408889634) div 14426950408889634
                  \<le> x * 10000000000000000 div 14426950408889634"
    by (rule div_le_mono)
  then show ?thesis by simp
qed


lemma hit_below_max:
  assumes "Value (ExtractGenerationHashInfo h) \<noteq> 0"
  shows "unat (CalculateHit log2x h) < 2 ^ 64 - 1"
proof (cases "Value (ExtractGenerationHashInfo h) = 0xFFFFFFFF")
  case True
  then show ?thesis by (simp add: CalculateHit_def)
next
  case False
  let ?D = "(ucast (32 + NumLeadingZeros (ExtractGenerationHashInfo h)) :: 64 word) * Two_To_54
              - log2x (Value (ExtractGenerationHashInfo h)) 54"
  have D: "unat ?D < 2 ^ 64" using unsigned_less [of ?D, where ?'a = nat] by simp
  show ?thesis
  proof (cases "unat ?D = 0")
    case True
    then show ?thesis unfolding CalculateHit_general [OF assms False] by simp
  next
    case nz: False
    then have "unat ?D * 10000000000000000 < unat ?D * 14426950408889634" by simp
    then have "unat ?D * 10000000000000000 div 14426950408889634 < unat ?D"
      by (simp add: div_less_iff_less_mult)
    then show ?thesis unfolding CalculateHit_general [OF assms False] using D by simp
  qed
qed


lemma gap_arith:
  fixes A1 A2 l1 l2 B :: nat
  assumes "A2 \<le> A1" "l1 + 2 \<le> l2" "l2 \<le> B" "B \<le> A2"
  shows "(A2 - l2) + 2 \<le> A1 - l1" "l1 \<le> A1" "l2 \<le> A2"
  using assms by arith+


text \<open>
  C8, as stated, fails. \<open>hash_80\<close> and \<open>hash_01\<close> both have a nonzero first byte; their
  windows are \<open>0x80000000\<close> (after 0 leading zero bits) and \<open>0x80000001\<close> (after 7), so
  the first window is the smaller one, and yet the first hit is the smaller one too:
  the hit also grows with the number of leading zero bits, which differs between the two.
\<close>

theorem CalculateHit_not_decreasing_counterexample:
  "length hash_80 = Hash256_Size \<and> length hash_01 = Hash256_Size
   \<and> hash_80 ! 0 \<noteq> 0 \<and> hash_01 ! 0 \<noteq> 0
   \<and> Value (ExtractGenerationHashInfo hash_80) < Value (ExtractGenerationHashInfo hash_01)
   \<and> \<not> CalculateHit Log2TimesPowerOfTwo hash_01 < CalculateHit Log2TimesPowerOfTwo hash_80"
  by (simp add: length_hash_80 length_hash_01 first_byte_hash_80 first_byte_hash_01
      info_hash_80 info_hash_01 hit_hash_80 hit_hash_01)


text \<open>
  The two hits compare the same way for every logarithm kernel that puts the logarithms
  of the two windows between \<open>31 * 2 ^ 54\<close> and \<open>32 * 2 ^ 54\<close>, where \<open>log2 w * 2 ^ 54\<close> lies
  for a window with the top bit set.
\<close>

lemma hash_01_above_hash_80:
  assumes a: "31 * 2 ^ 54 \<le> unat (log2x 0x80000000 54)" "unat (log2x 0x80000000 54) \<le> 32 * 2 ^ 54"
    and b: "unat (log2x 0x80000001 54) \<le> 32 * 2 ^ 54"
  shows "CalculateHit log2x hash_80 < CalculateHit log2x hash_01"
proof -
  let ?la = "unat (log2x 0x80000000 54)" and ?lb = "unat (log2x 0x80000001 54)"
  have h80: "unat (CalculateHit log2x hash_80) =
      ((32 + 0) * 2 ^ 54 - ?la) * 10000000000000000 div 14426950408889634"
    using CalculateHit_exact [of hash_80 log2x] a(2) by (simp add: info_hash_80)
  have h01: "unat (CalculateHit log2x hash_01) =
      ((32 + 7) * 2 ^ 54 - ?lb) * 10000000000000000 div 14426950408889634"
    using CalculateHit_exact [of hash_01 log2x] b by (simp add: info_hash_01)
  have "(32 + 0) * 2 ^ 54 - ?la \<le> 2 ^ 54" using a(1) by simp
  then have "((32 + 0) * 2 ^ 54 - ?la) * 10000000000000000 div 14426950408889634
               \<le> 2 ^ 54 * 10000000000000000 div 14426950408889634"
    by (intro div_le_mono mult_le_mono1)
  moreover have "7 * 2 ^ 54 \<le> (32 + 7) * 2 ^ 54 - ?lb" using b by simp
  then have "7 * 2 ^ 54 * 10000000000000000 div 14426950408889634
               \<le> ((32 + 7) * 2 ^ 54 - ?lb) * 10000000000000000 div 14426950408889634"
    by (intro div_le_mono mult_le_mono1)
  moreover have "(2::nat) ^ 54 * 10000000000000000 div 14426950408889634
                   < 7 * 2 ^ 54 * 10000000000000000 div 14426950408889634"
    by simp
  ultimately have "unat (CalculateHit log2x hash_80) < unat (CalculateHit log2x hash_01)"
    unfolding h80 h01 by linarith
  then show ?thesis by (simp add: word_less_nat_alt)
qed


text \<open>
  The order of the hits for a given logarithm kernel: with no more leading zero bits in
  the second hash than in the first, a kernel that grows by at least 2 from the first
  window to the second and stays within \<open>32 * 2 ^ 54\<close> gives a strictly smaller hit. A
  growth of 2 is what the truncating division by \<open>log2(e)\<close> needs.
\<close>

lemma CalculateHit_decreasing_gap:
  assumes nlz: "NumLeadingZeros (ExtractGenerationHashInfo h2) \<le> NumLeadingZeros (ExtractGenerationHashInfo h1)"
    and lt: "Value (ExtractGenerationHashInfo h1) < Value (ExtractGenerationHashInfo h2)"
    and gap: "unat (log2x (Value (ExtractGenerationHashInfo h1)) 54) + 2
                \<le> unat (log2x (Value (ExtractGenerationHashInfo h2)) 54)"
    and bound: "unat (log2x (Value (ExtractGenerationHashInfo h2)) 54) \<le> 32 * 2 ^ 54"
  shows "CalculateHit log2x h2 < CalculateHit log2x h1"
proof -
  let ?w1 = "Value (ExtractGenerationHashInfo h1)" and ?w2 = "Value (ExtractGenerationHashInfo h2)"
  let ?n1 = "unat (NumLeadingZeros (ExtractGenerationHashInfo h1))"
  let ?n2 = "unat (NumLeadingZeros (ExtractGenerationHashInfo h2))"
  let ?l1 = "unat (log2x ?w1 54)" and ?l2 = "unat (log2x ?w2 54)"
  have w2: "?w2 \<noteq> 0" using lt by auto
  have w1max: "?w1 \<noteq> 0xFFFFFFFF"
  proof
    assume "?w1 = 0xFFFFFFFF"
    then have "unat ?w2 > unat (0xFFFFFFFF :: 32 word)" using lt by (simp add: word_less_nat_alt)
    moreover have "unat ?w2 < 2 ^ 32" using unsigned_less [of ?w2, where ?'a = nat] by simp
    ultimately show False by simp
  qed
  have n: "?n2 \<le> ?n1" using nlz by (simp add: word_le_nat_alt)
  have A: "(32 + ?n2) * 2 ^ 54 \<le> (32 + ?n1) * (2::nat) ^ 54" using n by simp
  have B: "32 * 2 ^ 54 \<le> (32 + ?n2) * (2::nat) ^ 54" by simp
  note G = gap_arith [OF A gap bound B]
  have "unat (CalculateHit log2x h2) < unat (CalculateHit log2x h1)"
  proof (cases "?w1 = 0")
    case True
    then have "unat (CalculateHit log2x h1) = 2 ^ 64 - 1"
      by (simp add: CalculateHit_def unsigned_minus_1_eq_mask mask_eq_exp_minus_1)
    with hit_below_max [OF w2, of log2x] show ?thesis by simp
  next
    case w1: False
    have h1: "unat (CalculateHit log2x h1) =
        ((32 + ?n1) * 2 ^ 54 - ?l1) * 10000000000000000 div 14426950408889634"
      using w1 w1max G(2) by (rule CalculateHit_exact)
    show ?thesis
    proof (cases "?w2 = 0xFFFFFFFF")
      case True
      then have z: "unat (CalculateHit log2x h2) = 0" by (simp add: CalculateHit_def)
      have "0 + 2 \<le> (32 + ?n1) * 2 ^ 54 - ?l1" using G(1) by simp
      then have "0 * 10000000000000000 div 14426950408889634
                   < ((32 + ?n1) * 2 ^ 54 - ?l1) * 10000000000000000 div 14426950408889634"
        by (rule ratio_strict)
      then show ?thesis unfolding z h1 by simp
    next
      case False
      have h2: "unat (CalculateHit log2x h2) =
          ((32 + ?n2) * 2 ^ 54 - ?l2) * 10000000000000000 div 14426950408889634"
        using w2 False G(3) by (rule CalculateHit_exact)
      show ?thesis unfolding h1 h2 using G(1) by (rule ratio_strict)
    qed
  qed
  then show ?thesis by (simp add: word_less_nat_alt)
qed


text \<open>
  The kernel modelled above grows by at least 2 between any two windows with the top
  bit set. While the bits computed for two mantissas agree, the ratio of the mantissas
  is squared at each step, up to the truncation; it stays below 2, so the bits differ
  after fewer than 54 steps.
\<close>

lemma Log2_fraction_Suc:
  "Log2_fraction (Suc n) x acc =
     (if 2 ^ 64 \<le> x * x div 2 ^ 63 then Log2_fraction n (x * x div 2 ^ 63 div 2) (2 * acc + 1)
      else Log2_fraction n (x * x div 2 ^ 63) (2 * acc))"
  by (subst Log2_fraction.simps) (simp add: Let_def)


lemma Log2_fraction_0: "Log2_fraction 0 x acc = acc"
  by (subst Log2_fraction.simps) simp


lemma Log2_fraction_range:
  "acc * 2 ^ n \<le> Log2_fraction n x acc \<and> Log2_fraction n x acc < (acc + 1) * 2 ^ n"
proof (induction n arbitrary: x acc)
  case 0
  show ?case by (simp add: Log2_fraction_0)
next
  case (Suc n)
  let ?y = "x * x div 2 ^ 63"
  show ?case
  proof (cases "2 ^ 64 \<le> ?y")
    case True
    from Suc.IH [of "2 * acc + 1" "?y div 2"] True show ?thesis
      by (simp add: Log2_fraction_Suc algebra_simps)
  next
    case False
    from Suc.IH [of "2 * acc" ?y] False show ?thesis
      by (simp add: Log2_fraction_Suc algebra_simps)
  qed
qed


lemma square_step:
  fixes x1 x2 y1 y2 Q P N :: nat
  assumes inv: "x1 * (Q + P) \<le> x2 * Q"
    and y1: "y1 * N \<le> x1 * x1"
    and y2: "x2 * x2 < y2 * N + N"
    and Q: "0 < Q" "Q \<le> y1" and N: "0 < N"
  shows "y1 * (Q + 2 * P) < y2 * Q + y1"
proof -
  have "(x1 * (Q + P)) * (x1 * (Q + P)) \<le> (x2 * Q) * (x2 * Q)"
    using inv inv by (rule mult_le_mono)
  then have sq: "(x1 * x1) * ((Q + P) * (Q + P)) \<le> (x2 * x2) * (Q * Q)"
    by (simp only: ac_simps)
  have "(y1 * N) * ((Q + P) * (Q + P)) \<le> (x1 * x1) * ((Q + P) * (Q + P))"
    using y1 by (rule mult_le_mono1)
  also note sq
  also have "(x2 * x2) * (Q * Q) < (y2 * N + N) * (Q * Q)"
    using y2 Q(1) by (intro mult_strict_right_mono) simp_all
  finally have "(y1 * ((Q + P) * (Q + P))) * N < ((y2 + 1) * (Q * Q)) * N"
    by (simp only: ac_simps add_mult_distrib add_mult_distrib2 mult_1 mult_1_right)
  then have c: "y1 * ((Q + P) * (Q + P)) < (y2 + 1) * (Q * Q)"
    by simp
  have "Q * (Q + 2 * P) \<le> (Q + P) * (Q + P)" by (simp add: algebra_simps)
  then have "y1 * (Q * (Q + 2 * P)) \<le> y1 * ((Q + P) * (Q + P))" by (rule mult_le_mono2)
  from this c have "y1 * (Q * (Q + 2 * P)) < (y2 + 1) * (Q * Q)" by (rule le_less_trans)
  then have "(y1 * (Q + 2 * P)) * Q < ((y2 + 1) * Q) * Q" by (simp only: ac_simps)
  then have "y1 * (Q + 2 * P) < (y2 + 1) * Q" by simp
  also have "\<dots> \<le> y2 * Q + y1" using Q(2) by simp
  finally show ?thesis .
qed


lemma keep_step:
  fixes y1 y2 Q p :: nat
  assumes "y1 * (Q + 2 * (2 + p)) < y2 * Q + y1"
  shows "y1 * (Q + 2 + 2 * p) \<le> y2 * Q"
  using assms by (simp add: algebra_simps)


lemma halve_step:
  fixes y1 y2 Q p :: nat
  assumes S: "y1 * (Q + 2 * (2 + p)) < y2 * Q + y1" and Q: "Q \<le> y1 div 2" "0 < Q"
  shows "(y1 div 2) * (Q + 2 + 2 * p) \<le> (y2 div 2) * Q"
proof -
  let ?z1 = "y1 div 2" and ?z2 = "y2 div 2"
  have a: "2 * ?z1 \<le> y1" "y1 \<le> 2 * ?z1 + 1" "y2 \<le> 2 * ?z2 + 1" by simp_all
  have "(2 * ?z1) * (Q + 2 * (2 + p)) \<le> y1 * (Q + 2 * (2 + p))" using a(1) by (rule mult_le_mono1)
  also note S
  also have "y2 * Q + y1 \<le> (2 * ?z2 + 1) * Q + (2 * ?z1 + 1)"
    using a(2,3) by (intro add_mono mult_le_mono1)
  finally have "(2 * ?z1) * (Q + 2 * (2 + p)) < (2 * ?z2 + 1) * Q + (2 * ?z1 + 1)" .
  then have "2 * (?z1 * Q) + 8 * ?z1 + 4 * (?z1 * p) < 2 * (?z2 * Q) + Q + 2 * ?z1 + 1"
    by (simp add: algebra_simps)
  moreover have "Q + 1 \<le> 2 * ?z1" using Q by simp
  ultimately have "2 * (?z1 * Q) + 4 * ?z1 + 4 * (?z1 * p) < 2 * (?z2 * Q)" by simp
  then have "?z1 * Q + 2 * ?z1 + 2 * (?z1 * p) \<le> ?z2 * Q" by simp
  then show ?thesis by (simp add: algebra_simps)
qed


lemma Log2_fraction_strict:
  assumes "2 ^ 63 \<le> x1" and "x2 < 2 ^ 64"
    and "x1 * (2 ^ 40 + 2 + p) \<le> x2 * 2 ^ 40" and "2 ^ 40 \<le> p * 2 ^ n"
  shows "Log2_fraction n x1 acc < Log2_fraction n x2 acc"
  using assms
proof (induction n arbitrary: x1 x2 acc p)
  case 0
  then have p: "2 ^ 40 \<le> p" by simp
  have "x1 * (2 ^ 40 + 2 ^ 40) \<le> x1 * (2 ^ 40 + 2 + p)" using p by (intro mult_le_mono2) simp
  also note "0.prems"(3)
  finally have "x1 * 2 ^ 41 \<le> x2 * 2 ^ 40" by simp
  moreover have "2 ^ 63 * 2 ^ 41 \<le> x1 * (2::nat) ^ 41" using "0.prems"(1) by (rule mult_le_mono1)
  moreover have "x2 * 2 ^ 40 < 2 ^ 64 * (2::nat) ^ 40"
    using "0.prems"(2) by (intro mult_strict_right_mono) simp_all
  ultimately show ?case by simp
next
  case (Suc n)
  let ?Q = "(2::nat) ^ 40" and ?N = "(2::nat) ^ 63"
  let ?y1 = "x1 * x1 div ?N" and ?y2 = "x2 * x2 div ?N"
  have "x1 * ?Q \<le> x1 * (?Q + 2 + p)" by (intro mult_le_mono2) simp
  from this Suc.prems(3) have "x1 * ?Q \<le> x2 * ?Q" by (rule le_trans)
  then have le: "x1 \<le> x2" by simp
  have y12: "?y1 \<le> ?y2" using le by (intro div_le_mono mult_le_mono)
  have "?N * ?N \<le> x1 * x1" using Suc.prems(1) by (intro mult_le_mono)
  then have "?N * ?N div ?N \<le> ?y1" by (rule div_le_mono)
  then have y1lo: "?N \<le> ?y1" by simp
  have "x2 * x2 < 2 ^ 64 * 2 ^ 64" using Suc.prems(2) by (intro mult_strict_mono) simp_all
  then have "x2 * x2 < 2 ^ 65 * ?N" by simp
  then have y2hi: "?y2 < 2 ^ 65" by (rule less_mult_imp_div_less)
  have d1: "?y1 * ?N \<le> x1 * x1" by simp
  have d2: "x2 * x2 < ?y2 * ?N + ?N"
    using dividend_less_div_times [of ?N "x2 * x2"] by (simp add: ac_simps)
  have inv: "x1 * (?Q + (2 + p)) \<le> x2 * ?Q" using Suc.prems(3) by (simp add: ac_simps)
  have Qy: "?Q \<le> ?y1" using y1lo by simp
  have S: "?y1 * (?Q + 2 * (2 + p)) < ?y2 * ?Q + ?y1"
    using inv d1 d2 _ Qy by (rule square_step) simp_all
  have steps: "2 ^ 40 \<le> (2 * p) * 2 ^ n" using Suc.prems(4) by (simp add: ac_simps)
  show ?case
  proof (cases "2 ^ 64 \<le> ?y1")
    case True
    then have t2: "2 ^ 64 \<le> ?y2" using y12 by simp
    have lo: "2 ^ 63 \<le> ?y1 div 2" using True by simp
    have hi: "?y2 div 2 < 2 ^ 64" using y2hi by simp
    have "?Q \<le> ?y1 div 2" using lo by simp
    with S have "(?y1 div 2) * (?Q + 2 + 2 * p) \<le> (?y2 div 2) * ?Q"
      by (rule halve_step) simp
    from Suc.IH [OF lo hi this steps, of "2 * acc + 1"] True t2
    show ?thesis by (simp add: Log2_fraction_Suc)
  next
    case False
    show ?thesis
    proof (cases "2 ^ 64 \<le> ?y2")
      case True
      have "Log2_fraction n ?y1 (2 * acc) < (2 * acc + 1) * 2 ^ n"
        using Log2_fraction_range [of "2 * acc" n ?y1] by simp
      also have "\<dots> \<le> Log2_fraction n (?y2 div 2) (2 * acc + 1)"
        using Log2_fraction_range [of "2 * acc + 1" n "?y2 div 2"] by simp
      finally show ?thesis using False True by (simp add: Log2_fraction_Suc)
    next
      case F2: False
      have lo: "2 ^ 63 \<le> ?y1" by (rule y1lo)
      have hi: "?y2 < 2 ^ 64" using F2 by simp
      have "?y1 * (?Q + 2 + 2 * p) \<le> ?y2 * ?Q" using S by (rule keep_step)
      from Suc.IH [OF lo hi this steps, of "2 * acc"] False F2
      show ?thesis by (simp add: Log2_fraction_Suc)
    qed
  qed
qed


lemma Log2_fraction_gap:
  assumes lo: "2 ^ 63 \<le> x1" and gap: "x1 + 2 ^ 32 \<le> x2" and hi: "x2 < 2 ^ 64"
  shows "Log2_fraction 54 x1 0 + 2 \<le> Log2_fraction 54 x2 0"
proof -
  let ?m = "x1 + 2 ^ 31"
  have x1: "x1 < 2 ^ 64" using gap hi by simp
  have far: "(2::nat) ^ 40 \<le> 1 * 2 ^ 54" by simp
  have "x1 * 3 \<le> 2 ^ 31 * 2 ^ 40" using x1 by simp
  then have "x1 * (2 ^ 40 + 2 + 1) \<le> ?m * 2 ^ 40" by (simp add: algebra_simps)
  moreover have "?m < 2 ^ 64" using gap hi by simp
  ultimately have a: "Log2_fraction 54 x1 0 < Log2_fraction 54 ?m 0"
    using lo far by (intro Log2_fraction_strict [where p = 1])
  have m: "?m < 2 ^ 64" "2 ^ 63 \<le> ?m" using gap hi lo by simp_all
  have "?m * 3 \<le> 2 ^ 31 * 2 ^ 40" using m(1) by simp
  moreover have "?m + 2 ^ 31 \<le> x2" using gap by simp
  then have "(?m + 2 ^ 31) * 2 ^ 40 \<le> x2 * 2 ^ 40" by (rule mult_le_mono1)
  ultimately have "?m * (2 ^ 40 + 2 + 1) \<le> x2 * 2 ^ 40" by (simp add: algebra_simps)
  then have b: "Log2_fraction 54 ?m 0 < Log2_fraction 54 x2 0"
    using m(2) hi far by (intro Log2_fraction_strict [where p = 1])
  from a b show ?thesis by simp
qed


lemma Log2_nat_top:
  assumes "2 ^ 31 \<le> n" and "n < 2 ^ 32"
  shows "Log2_nat n = 31"
proof -
  have pos: "0 < n" using assms(1) by (simp add: less_le_trans [of 0 "2 ^ 31"])
  note B = Log2_nat_bounds [OF pos]
  have two: "(1::nat) < 2" by simp
  have p1: "(2::nat) ^ Log2_nat n < 2 ^ 32" using B assms(2) by linarith
  have p2: "(2::nat) ^ 31 < 2 ^ (Log2_nat n + 1)" using B assms(1) by linarith
  from power_less_imp_less_exp [OF two p1] power_less_imp_less_exp [OF two p2]
  show ?thesis by simp
qed


lemma unat_lt_32: "unat (w :: 32 word) < 2 ^ 32"
  using unsigned_less [of w, where ?'a = nat] by simp


lemma kernel_top:
  assumes "2 ^ 31 \<le> unat w"
  shows "unat (Log2TimesPowerOfTwo w 54) = 31 * 2 ^ 54 + Log2_fraction 54 (unat w * 2 ^ 32) 0"
proof -
  let ?X = "31 * 2 ^ 54 + Log2_fraction 54 (unat w * 2 ^ 32) 0"
  have b: "Log2_nat (unat w) = 31" using assms unat_lt_32 by (rule Log2_nat_top)
  have "Log2_fraction 54 (unat w * 2 ^ 32) 0 < (0 + 1) * 2 ^ 54"
    using Log2_fraction_range [of 0 54 "unat w * 2 ^ 32"] by blast
  then have "?X < 2 ^ LENGTH(64)" by simp
  then have u: "unat (of_nat ?X :: 64 word) = ?X" unfolding unat_of_nat by (rule mod_less)
  have "Log2TimesPowerOfTwo w 54 = of_nat ?X"
    by (simp add: Log2TimesPowerOfTwo_def Let_def b)
  then show ?thesis by (simp only: u)
qed


lemma kernel_increasing:
  assumes top: "2 ^ 31 \<le> unat w1" and lt: "w1 < w2"
  shows "unat (Log2TimesPowerOfTwo w1 54) + 2 \<le> unat (Log2TimesPowerOfTwo w2 54)"
    and "unat (Log2TimesPowerOfTwo w2 54) \<le> 32 * 2 ^ 54"
proof -
  have u: "unat w1 < unat w2" using lt by (simp add: word_less_nat_alt)
  then have top2: "2 ^ 31 \<le> unat w2" using top by simp
  have lo: "2 ^ 63 \<le> unat w1 * 2 ^ 32" using top by simp
  have hi: "unat w2 * 2 ^ 32 < 2 ^ 64" using unat_lt_32 [of w2] by simp
  have "unat w1 + 1 \<le> unat w2" using u by simp
  then have "(unat w1 + 1) * 2 ^ 32 \<le> unat w2 * 2 ^ 32" by (rule mult_le_mono1)
  then have gap: "unat w1 * 2 ^ 32 + 2 ^ 32 \<le> unat w2 * 2 ^ 32" by (simp add: algebra_simps)
  show "unat (Log2TimesPowerOfTwo w1 54) + 2 \<le> unat (Log2TimesPowerOfTwo w2 54)"
    unfolding kernel_top [OF top] kernel_top [OF top2]
    using Log2_fraction_gap [OF lo gap hi] by simp
  have "Log2_fraction 54 (unat w2 * 2 ^ 32) 0 < (0 + 1) * 2 ^ 54"
    using Log2_fraction_range [of 0 54 "unat w2 * 2 ^ 32"] by blast
  then show "unat (Log2TimesPowerOfTwo w2 54) \<le> 32 * 2 ^ 54"
    unfolding kernel_top [OF top2] by simp
qed


lemma top_bit_ge:
  fixes w :: "32 word"
  assumes "bit w 31"
  shows "2 ^ 31 \<le> unat w"
proof (rule ccontr)
  assume "\<not> 2 ^ 31 \<le> unat w"
  then have "unat w div 2 ^ 31 = 0" by simp
  then have "\<not> bit (unat w) 31" by (simp add: bit_iff_odd)
  then show False using assms by (simp add: bit_unsigned_iff)
qed


lemma first_byte_window:
  assumes "h ! 0 \<noteq> 0"
  shows "2 ^ 31 \<le> unat (Value (ExtractGenerationHashInfo h))"
proof -
  have "bit (Value (ExtractGenerationHashInfo h)) 31"
    using _ assms by (rule window_nonzero(2)) (simp_all add: Hash256_Size_def)
  then show ?thesis by (rule top_bit_ge)
qed


text \<open>
  C8, amended. For two hashes of which the first has a nonzero first byte and the second
  has no more leading zero bits than the first (in particular two hashes with nonzero
  first bytes and equally many leading zero bits): if the window of the first is below
  the window of the second, then the hit of the first is strictly above the hit of the
  second. The logarithm kernel is the one modelled above.
\<close>

theorem CalculateHit_decreasing:
  assumes first: "h1 ! 0 \<noteq> 0"
    and nlz: "NumLeadingZeros (ExtractGenerationHashInfo h2) \<le> NumLeadingZeros (ExtractGenerationHashInfo h1)"
    and lt: "Value (ExtractGenerationHashInfo h1) < Value (ExtractGenerationHashInfo h2)"
  shows "CalculateHit Log2TimesPowerOfTwo h2 < CalculateHit Log2TimesPowerOfTwo h1"
proof -
  have top: "2 ^ 31 \<le> unat (Value (ExtractGenerationHashInfo h1))"
    using first by (rule first_byte_window)
  from nlz lt kernel_increasing [OF top lt] show ?thesis
    by (rule CalculateHit_decreasing_gap)
qed


theorem CalculateHit_decreasing_witness:
  "hash_80 ! 0 \<noteq> 0
   \<and> NumLeadingZeros (ExtractGenerationHashInfo hash_80_01)
       \<le> NumLeadingZeros (ExtractGenerationHashInfo hash_80)
   \<and> Value (ExtractGenerationHashInfo hash_80) < Value (ExtractGenerationHashInfo hash_80_01)
   \<and> CalculateHit Log2TimesPowerOfTwo hash_80_01 < CalculateHit Log2TimesPowerOfTwo hash_80"
  using CalculateHit_decreasing [of hash_80 hash_80_01]
  by (simp add: first_byte_hash_80 info_hash_80 info_hash_80_01)


subsection \<open>CalculateTarget\<close>



lemma CalculateTarget_fails:
  "TotalChainImportance cfg = 0 \<or> d = 0 \<Longrightarrow> CalculateTarget W sm ts d imp cfg = Inl DivisionByZero"
  by (auto simp: CalculateTarget_def Let_def)














subsection \<open>BlockHitPredicate\<close>

lemma CalculateTarget_zero_importance:
  assumes "TotalChainImportance cfg \<noteq> 0" and "d \<noteq> 0"
  shows "CalculateTarget W sm ts d 0 cfg = Inr 0"
  using assms by (simp add: CalculateTarget_def Let_def BlockTarget_def)


text \<open>
  C4. When the timestamp of the block is not after that of its parent, the block
  overload of \<open>CalculateTarget\<close> returns 0 and \<open>BlockHitPredicate\<close> returns false, whatever
  the generation hash, the importance lookup and the configuration: no hit is below 0.
\<close>

theorem BlockHitPredicate_noncausal:
  assumes "Timestamp block \<le> Timestamp parent"
  shows "CalculateTarget_blocks W sm parent block importance config = Inr 0
       \<and> BlockHitPredicate_blocks W sm log2x this parent block generationHash = Inr False"
  using assms by (simp add: CalculateTarget_blocks_def BlockHitPredicate_blocks_def BlockTarget_def)


theorem BlockHitPredicate_noncausal_witness:
  "Timestamp genesis \<le> Timestamp second_block
   \<and> CalculateHit Log2TimesPowerOfTwo ones_hash = 0
   \<and> BlockHitPredicate_blocks 256 flat_smoother Log2TimesPowerOfTwo
         \<lparr>m_config = plain_config, m_importanceLookup = zero_importance\<rparr>
         second_block genesis ones_hash = Inr False"
  using BlockHitPredicate_noncausal [of genesis second_block 256 flat_smoother 0 plain_config
      Log2TimesPowerOfTwo "\<lparr>m_config = plain_config, m_importanceLookup = zero_importance\<rparr>"
      ones_hash]
  by (simp add: genesis_def second_block_def CalculateHit_def info_ones_hash)

text \<open>
  C9, as stated, fails for a configuration whose total chain importance is 0: the block
  is after its parent, the lookup returns importance 0, and the division of the target
  by the total chain importance raises, so the predicate does not return false.
\<close>

theorem BlockHitPredicate_zero_importance_counterexample:
  "m_importanceLookup \<lparr>m_config = empty_chain_config, m_importanceLookup = zero_importance\<rparr>
     (Signer second_block) (Height second_block) = 0
   \<and> BlockHitPredicate_blocks 256 flat_smoother Log2TimesPowerOfTwo
         \<lparr>m_config = empty_chain_config, m_importanceLookup = zero_importance\<rparr>
         genesis second_block ones_hash = Inl DivisionByZero
   \<and> BlockHitPredicate_blocks 256 flat_smoother Log2TimesPowerOfTwo
         \<lparr>m_config = empty_chain_config, m_importanceLookup = zero_importance\<rparr>
         genesis second_block ones_hash \<noteq> Inr False"
  by (simp add: BlockHitPredicate_blocks_def CalculateTarget_blocks_def CalculateTarget_fails
      zero_importance_def empty_chain_config_def genesis_def second_block_def)

text \<open>
  C9, amended. If the importance lookup returns 0 for the signer and height of the
  block, and either the block is not after its parent or both the total chain importance
  of the configuration and the difficulty of the block are nonzero, then the target is
  exactly 0 and \<open>BlockHitPredicate\<close> returns false for every generation hash: no hit, not
  even 0, is below the target.
\<close>

theorem BlockHitPredicate_zero_importance:
  assumes "m_importanceLookup this (Signer block) (Height block) = 0"
    and "Timestamp block \<le> Timestamp parent
         \<or> (TotalChainImportance (m_config this) \<noteq> 0 \<and> Difficulty block \<noteq> 0)"
  shows "CalculateTarget_blocks W sm parent block
           (m_importanceLookup this (Signer block) (Height block)) (m_config this) = Inr 0
       \<and> BlockHitPredicate_blocks W sm log2x this parent block generationHash = Inr False"
proof -
  have t: "CalculateTarget_blocks W sm parent block 0 (m_config this) = Inr 0"
    using assms(2)
    by (auto simp: CalculateTarget_blocks_def BlockTarget_def CalculateTarget_zero_importance)
  then show ?thesis
    by (simp add: BlockHitPredicate_blocks_def assms(1))
qed


theorem BlockHitPredicate_zero_importance_witness:
  "m_importanceLookup \<lparr>m_config = plain_config, m_importanceLookup = zero_importance\<rparr>
     (Signer second_block) (Height second_block) = 0
   \<and> TotalChainImportance plain_config \<noteq> 0 \<and> Difficulty second_block \<noteq> 0
   \<and> Timestamp genesis < Timestamp second_block
   \<and> CalculateHit Log2TimesPowerOfTwo ones_hash = 0
   \<and> BlockHitPredicate_blocks 256 flat_smoother Log2TimesPowerOfTwo
         \<lparr>m_config = plain_config, m_importanceLookup = zero_importance\<rparr>
         genesis second_block ones_hash = Inr False"
  using BlockHitPredicate_zero_importance
      [of "\<lparr>m_config = plain_config, m_importanceLookup = zero_importance\<rparr>" second_block
        genesis 256 flat_smoother Log2TimesPowerOfTwo ones_hash]
  by (simp add: zero_importance_def plain_config_def genesis_def second_block_def CalculateHit_def
      info_ones_hash)

text \<open>The same holds for the call with a \<open>BlockHitContext\<close>.\<close>

lemma BlockHitPredicate_context_zero_importance:
  assumes "m_importanceLookup this (ctx_Signer context) (ctx_Height context) = 0"
    and "TotalChainImportance (m_config this) \<noteq> 0" and "ctx_Difficulty context \<noteq> 0"
  shows "BlockHitPredicate_context W sm log2x this context = Inr False"
  using assms by (simp add: BlockHitPredicate_context_def CalculateTarget_zero_importance)

section \<open>Properties of the notification dispatch\<close>

lemma deliver_filter:
  "deliver (ObservingNotificationSubscriber_notify obs ctx) ns s =
     deliver (\<lambda>n. obs n ctx) (filter (\<lambda>n. IsSet (Type n) Observer) ns) s"
proof (induction ns arbitrary: s)
  case Nil
  show ?case by simp
next
  case (Cons n ns)
  show ?case
  proof (cases "IsSet (Type n) Observer")
    case True
    then have "ObservingNotificationSubscriber_notify obs ctx n s = obs n ctx s"
      by (simp add: ObservingNotificationSubscriber_notify_def)
    with True Cons.IH show ?thesis
      by (simp split: prod.splits option.splits)
  next
    case False
    then have "ObservingNotificationSubscriber_notify obs ctx n s = (s, None)"
      by (simp add: ObservingNotificationSubscriber_notify_def)
    with False Cons.IH show ?thesis by simp
  qed
qed


lemma deliver_recording:
  "deliver (\<lambda>n. recording n ctx) ns log = (log @ ns, None)"
  by (induction ns arbitrary: log) (simp_all add: recording_def)


lemma deliver_append_ok:
  "deliver sub xs s = (s1, None) \<Longrightarrow> deliver sub (xs @ ys) s = deliver sub ys s1"
  by (induction xs arbitrary: s) (auto split: prod.splits option.splits)


lemma deliver_logged_ok:
  "deliver (\<lambda>n. obs n ctx) xs s = (s1, None) \<Longrightarrow>
   deliver (\<lambda>n. logged obs n ctx) xs (log, s) = ((log @ xs, s1), None)"
proof (induction xs arbitrary: s log)
  case Nil
  then show ?case by simp
next
  case (Cons x xs)
  obtain s' r where step: "obs x ctx s = (s', r)" by (cases "obs x ctx s")
  with Cons.prems have r: "r = None" and rest: "deliver (\<lambda>n. obs n ctx) xs s' = (s1, None)"
    by (auto split: option.splits)
  have "logged obs x ctx (log, s) = ((log @ [x], s'), None)"
    using step r by (simp add: logged_def)
  then show ?case using Cons.IH [OF rest, of "log @ [x]"] by simp
qed


lemma channels_of_examples:
  "\<not> IsSet (Type N1) Observer" "IsSet (Type N2) Observer" "IsSet (Type N3) Observer"
  "IsSet (Type N1) Validator" "\<not> IsSet (Type N2) Validator" "IsSet (Type N3) Validator"
  by (simp_all add: IsSet_def N1_def N2_def N3_def)

text \<open>
  C1. For every entity, observer and context, \<open>notify\<close> of the adapter does to the state
  what delivering to the wrapped observer, one after the other and in the publisher's
  order, the notifications whose type has the Observer bit does. In particular the
  recording observer ends with exactly that subsequence: nothing reordered, repeated or
  held back. A notification without the Observer bit leaves the state as it is.
\<close>

theorem adapter_forwards_observer_channel:
  "NotificationObserverAdapter_notify obs pub entity ctx s =
     deliver (\<lambda>n. obs n ctx) (filter (\<lambda>n. IsSet (Type n) Observer) (pub entity)) s
   \<and> NotificationObserverAdapter_notify recording pub entity ctx [] =
       (filter (\<lambda>n. IsSet (Type n) Observer) (pub entity), None)
   \<and> (\<not> IsSet (Type n) Observer \<longrightarrow>
        ObservingNotificationSubscriber_notify obs ctx n s = (s, None))"
  by (simp add: NotificationObserverAdapter_notify_def publish_def deliver_filter
      deliver_recording ObservingNotificationSubscriber_notify_def)


theorem adapter_forwards_observer_channel_witness:
  "NotificationObserverAdapter_notify recording three_notifications () () [] = ([N2, N3], None)"
  using adapter_forwards_observer_channel
      [of recording three_notifications "()" "()" "[]" N1, THEN conjunct2, THEN conjunct1]
  by (simp add: three_notifications_def channels_of_examples)

text \<open>
  C5. Let the publisher's sequence for the entity be \<open>pre @ nk # post\<close>, with \<open>nk\<close> on the
  Observer channel, let the deliveries before \<open>nk\<close> succeed, and let the wrapped observer
  fail on \<open>nk\<close>. Then \<open>notify\<close> of the adapter ends with that failure and with the state
  the observer left when it failed, and the notifications delivered to the observer are
  the Observer-channel ones of \<open>pre\<close> followed by \<open>nk\<close>: none of \<open>post\<close>, and \<open>nk\<close> once.
\<close>

theorem adapter_failure_aborts:
  assumes seq: "pub entity = pre @ nk # post"
    and obs_bit: "IsSet (Type nk) Observer"
    and before: "deliver (\<lambda>n. obs n ctx) (filter (\<lambda>n. IsSet (Type n) Observer) pre) s = (s1, None)"
    and fails: "obs nk ctx s1 = (s2, Some err)"
  shows "NotificationObserverAdapter_notify obs pub entity ctx s = (s2, Some err)
       \<and> NotificationObserverAdapter_notify (logged obs) pub entity ctx ([], s) =
           ((filter (\<lambda>n. IsSet (Type n) Observer) pre @ [nk], s2), Some err)"
proof -
  let ?P = "\<lambda>n. IsSet (Type n) Observer"
  have f: "filter ?P (pub entity) = filter ?P pre @ nk # filter ?P post"
    using seq obs_bit by simp
  have plain: "deliver (\<lambda>n. obs n ctx) (filter ?P (pub entity)) s = (s2, Some err)"
    unfolding f deliver_append_ok [OF before] using fails by simp
  have lg: "deliver (\<lambda>n. logged obs n ctx) (filter ?P pre) ([], s) = (([] @ filter ?P pre, s1), None)"
    using before by (rule deliver_logged_ok)
  have "logged obs nk ctx (filter ?P pre, s1) = ((filter ?P pre @ [nk], s2), Some err)"
    using fails by (simp add: logged_def)
  then have "deliver (\<lambda>n. logged obs n ctx) (filter ?P (pub entity)) ([], s)
               = ((filter ?P pre @ [nk], s2), Some err)"
    unfolding f deliver_append_ok [OF lg] by simp
  with plain show ?thesis
    by (simp add: NotificationObserverAdapter_notify_def publish_def deliver_filter)
qed


theorem adapter_failure_aborts_witness:
  "three_notifications () = [N1] @ N2 # [N3]
   \<and> IsSet (Type N2) Observer
   \<and> fails_on (Type N2) N2 () 0 = (0, Some ''failure'')
   \<and> NotificationObserverAdapter_notify (logged (fails_on (Type N2))) three_notifications () ()
         ([], 0) = (([N2], 0), Some ''failure'')"
  using adapter_failure_aborts [of three_notifications "()" "[N1]" N2 "[N3]" "fails_on (Type N2)"
      "()" 0 0 0 "''failure''"]
  by (simp add: three_notifications_def channels_of_examples fails_on_def)

end
